theory Spec2Isabelle
  imports Main "HOL-Library.Sublist" "HOL-Library.Char_ord" "HOL-Library.List_Lexorder"
begin

section \<open>Python string primitives used by parse\_pool\_metrics.py\<close>

text \<open>
  Python strings are modelled as \<^typ>\<open>string\<close>. The model covers ASCII text: the
  whitespace characters are the ASCII characters for which \<open>str.isspace\<close> holds (they are
  also the ones \<open>\s\<close> matches), the digits are \<open>0\<close> to \<open>9\<close>, and \<open>str.lower\<close> maps
  \<open>A\<close> to \<open>Z\<close> onto \<open>a\<close> to \<open>z\<close> and leaves every other character alone.
\<close>

definition isspace :: "char \<Rightarrow> bool" where
  "isspace c = (of_char c \<in> {9, 10, 11, 12, 13, 28, 29, 30, 31, 32 :: nat})"

definition isdigit :: "char \<Rightarrow> bool" where
  "isdigit c = (c \<in> set ''0123456789'')"

definition lower_char :: "char \<Rightarrow> char" where
  "lower_char c =
     (if c \<in> set ''ABCDEFGHIJKLMNOPQRSTUVWXYZ'' then char_of (of_char c + (32 :: nat)) else c)"

text \<open>\<open>s.lower()\<close>\<close>

definition lower :: "string \<Rightarrow> string" where
  "lower s = map lower_char s"

text \<open>\<open>s.strip()\<close>: leading and trailing whitespace removed.\<close>

definition strip :: "string \<Rightarrow> string" where
  "strip s = rev (dropWhile isspace (rev (dropWhile isspace s)))"

text \<open>
  \<open>s.split()\<close>: the maximal runs of non-whitespace characters, in order. The first
  argument is the word read so far.
\<close>

fun split_acc :: "string \<Rightarrow> string \<Rightarrow> string list" where
  "split_acc w [] = (if w = [] then [] else [w])"
| "split_acc w (c # cs) =
     (if isspace c then (if w = [] then split_acc [] cs else w # split_acc [] cs)
      else split_acc (w @ [c]) cs)"

definition split_ws :: "string \<Rightarrow> string list" where
  "split_ws s = split_acc [] s"

text \<open>
  \<open>re.split(r'\s{2,}', s)\<close>: the text is cut at every maximal run of two or more
  whitespace characters (the pattern is greedy and matches are taken leftmost, without
  overlap); a single whitespace character stays inside its token. The first argument is the
  token read so far.
\<close>

function re_split_gap :: "string \<Rightarrow> string \<Rightarrow> string list" where
  "re_split_gap w [] = [w]"
| "re_split_gap w [c] = [w @ [c]]"
| "re_split_gap w (c # d # cs) =
     (if isspace c \<and> isspace d then w # re_split_gap [] (dropWhile isspace cs)
      else re_split_gap (w @ [c]) (d # cs))"
  by pat_completeness auto
termination
  by (relation "measure (\<lambda>(w, s). length s)")
     (auto simp: le_imp_less_Suc length_dropWhile_le less_Suc_eq_le intro: le_SucI)

definition re_split_wide :: "string \<Rightarrow> string list" where
  "re_split_wide s = re_split_gap [] s"

text \<open>\<open>sub in s\<close>\<close>

primrec contains :: "string \<Rightarrow> string \<Rightarrow> bool" where
  "contains sub [] = (sub = [])"
| "contains sub (c # cs) = (prefix sub (c # cs) \<or> contains sub cs)"

text \<open>\<open>s.split(sep)\<close> for a one-character separator; the second argument is the piece read so far.\<close>

fun split_on :: "char \<Rightarrow> string \<Rightarrow> string \<Rightarrow> string list" where
  "split_on sep w [] = [w]"
| "split_on sep w (c # cs) =
     (if c = sep then w # split_on sep [] cs else split_on sep (w @ [c]) cs)"

section \<open>The table row parser\<close>

record pool_info =
  pool_name :: string
  active :: string
  pending :: string
  backpressure :: string
  delayed :: string
  shared :: string
  stolen :: string
  completed :: string
  blocked :: string
  all_time_blocked :: string

text \<open>
  \<open>parse_pool_line\<close>: \<open>None\<close> when the line has fewer than six whitespace-separated
  words or fewer than six wide-gap columns; the long form from ten columns on; the short
  form otherwise. Every index read is below the number of columns checked before.
\<close>

definition parse_pool_line :: "string \<Rightarrow> pool_info option" where
  "parse_pool_line line =
     (let parts = split_ws (strip line) in
      if length parts < 6 then None
      else
        let columns = re_split_wide (strip line) in
        if length columns < 6 then None
        else if length columns \<ge> 10 then
          Some \<lparr>pool_name = strip (columns ! 0),
                active = strip (columns ! 1),
                pending = strip (columns ! 2),
                backpressure = strip (columns ! 3),
                delayed = strip (columns ! 4),
                shared = strip (columns ! 5),
                stolen = strip (columns ! 6),
                completed = strip (columns ! 7),
                blocked = strip (columns ! 8),
                all_time_blocked = strip (columns ! 9)\<rparr>
        else
          Some \<lparr>pool_name = strip (columns ! 0),
                active = strip (columns ! 1),
                pending = strip (columns ! 2),
                backpressure = ''0'',
                delayed = ''0'',
                shared = ''0'',
                stolen = ''0'',
                completed = strip (columns ! 3),
                blocked = strip (columns ! 4),
                all_time_blocked = strip (columns ! 5)\<rparr>)"

section \<open>The record filter\<close>

text \<open>
  \<open>filter_pools\<close>: an empty target list returns the records as they are; otherwise a
  record is kept when its lower-cased name is among the lower-cased targets.
\<close>

definition filter_pools :: "pool_info list \<Rightarrow> string list \<Rightarrow> pool_info list" where
  "filter_pools pool_data target_pools =
     (if target_pools = [] then pool_data
      else
        let target_pools_lower = map lower target_pools in
        filter (\<lambda>pool. lower (pool_name pool) \<in> set target_pools_lower) pool_data)"

section \<open>The timestamp extractor\<close>

text \<open>
  The regular expressions of the program are fixed-width sequences of digit classes and
  literal characters. \<open>match_here\<close> is \<open>re.match\<close> (the pattern matches a prefix of the
  text); \<open>re_search\<close> is \<open>re.search(...).group(1)\<close>, the text of the leftmost match.
\<close>

datatype pat = Digit | Lit char

fun match_item :: "pat \<Rightarrow> char \<Rightarrow> bool" where
  "match_item Digit c = isdigit c"
| "match_item (Lit l) c = (c = l)"

fun match_here :: "pat list \<Rightarrow> string \<Rightarrow> bool" where
  "match_here [] s = True"
| "match_here (p # ps) [] = False"
| "match_here (p # ps) (c # cs) = (match_item p c \<and> match_here ps cs)"

fun re_search :: "pat list \<Rightarrow> string \<Rightarrow> string option" where
  "re_search ps [] = (if match_here ps [] then Some [] else None)"
| "re_search ps (c # cs) =
     (if match_here ps (c # cs) then Some (take (length ps) (c # cs)) else re_search ps cs)"

text \<open>\<open>\d{4}-\d{2}-\d{2} \d{2}:\d{2}:\d{2},\d{3}\<close>\<close>

definition timestamp_pattern :: "pat list" where
  "timestamp_pattern =
     [Digit, Digit, Digit, Digit, Lit CHR ''-'', Digit, Digit, Lit CHR ''-'', Digit, Digit,
      Lit CHR '' '', Digit, Digit, Lit CHR '':'', Digit, Digit, Lit CHR '':'', Digit, Digit,
      Lit CHR '','', Digit, Digit, Digit]"

definition extract_timestamp :: "string \<Rightarrow> string option" where
  "extract_timestamp line = re_search timestamp_pattern line"

section \<open>The section locator\<close>

text \<open>\<open>^\d{4}-\d{2}-\d{2}\<close>\<close>

definition date_pattern :: "pat list" where
  "date_pattern =
     [Digit, Digit, Digit, Digit, Lit CHR ''-'', Digit, Digit, Lit CHR ''-'', Digit, Digit]"

text \<open>\<open>re.match(r'^(INFO|WARN|ERROR|DEBUG)', s)\<close>\<close>

definition starts_with_level :: "string \<Rightarrow> bool" where
  "starts_with_level s =
     (prefix ''INFO'' s \<or> prefix ''WARN'' s \<or> prefix ''ERROR'' s \<or> prefix ''DEBUG'' s)"

text \<open>
  The test that ends the three inner loops (lines 115, 134 and 154 of the source):
  the stripped line is empty, or starts with a date, or starts with a level marker.
\<close>

definition is_boundary :: "string \<Rightarrow> bool" where
  "is_boundary s = (s = [] \<or> match_here date_pattern s \<or> starts_with_level s)"

definition is_header :: "string \<Rightarrow> bool" where
  "is_header line =
     (contains ''Pool Name'' line \<and> contains ''Active'' line \<and> contains ''Pending'' line)"

text \<open>Python's \<open>not timestamp\<close> on an optional string: \<open>None\<close> and the empty string.\<close>

definition falsy :: "string option \<Rightarrow> bool" where
  "falsy t = (t = None \<or> t = Some [])"

text \<open>
  The loop of lines 108 to 117, entered with \<open>j = i + 1\<close>:
  \<open>while j < len(lines) and j < i + 10\<close>.
\<close>

function scan_timestamp :: "string list \<Rightarrow> nat \<Rightarrow> nat \<Rightarrow> string option" where
  "scan_timestamp lines i j =
     (if j < length lines \<and> j < i + 10 then
        (let check_line = strip (lines ! j) in
         if contains ''StatusLogger.java'' check_line then extract_timestamp check_line
         else if is_boundary check_line then None
         else scan_timestamp lines i (j + 1))
      else None)"
  by pat_completeness auto
termination
  by (relation "measure (\<lambda>(lines, i, j). length lines - j)") auto

text \<open>Lines 97 to 117: the line before the header first, then the lines after it.\<close>

definition resolve_timestamp :: "string list \<Rightarrow> nat \<Rightarrow> string option" where
  "resolve_timestamp lines i =
     (let timestamp =
            (if i > 0 then
               (let prev_line = strip (lines ! (i - 1)) in
                if contains ''StatusLogger.java'' prev_line then extract_timestamp prev_line
                else None)
             else None)
      in if falsy timestamp then scan_timestamp lines i (i + 1) else timestamp)"

text \<open>The loop of lines 129 to 145, entered with \<open>j = i + 1\<close> and no records.\<close>

function collect_forward :: "string list \<Rightarrow> nat \<Rightarrow> pool_info list \<Rightarrow> pool_info list" where
  "collect_forward lines j pool_data =
     (if j < length lines then
        (let data_line = strip (lines ! j) in
         if is_boundary data_line then pool_data
         else
           (case parse_pool_line data_line of
              Some pool \<Rightarrow> collect_forward lines (j + 1) (pool_data @ [pool])
            | None \<Rightarrow> pool_data))
      else pool_data)"
  by pat_completeness auto
termination
  by (relation "measure (\<lambda>(lines, j, pool_data). length lines - j)") auto

text \<open>
  The loop of lines 149 to 165, entered with \<open>j = i - 1\<close>; \<open>j\<close> is a Python integer and
  the loop ends when it is negative. \<open>pool_data.insert(0, pool)\<close> puts the record in front.
\<close>

function collect_backward :: "string list \<Rightarrow> int \<Rightarrow> pool_info list \<Rightarrow> pool_info list" where
  "collect_backward lines j pool_data =
     (if j \<ge> 0 then
        (let data_line = strip (lines ! nat j) in
         if is_boundary data_line then pool_data
         else
           (case parse_pool_line data_line of
              Some pool \<Rightarrow> collect_backward lines (j - 1) (pool # pool_data)
            | None \<Rightarrow> pool_data))
      else pool_data)"
  by pat_completeness auto
termination
  by (relation "measure (\<lambda>(lines, j, pool_data). nat (j + 1))") auto

text \<open>Lines 126 to 165: the records after the header, or else the records before it.\<close>

definition collect_pool_data :: "string list \<Rightarrow> nat \<Rightarrow> pool_info list" where
  "collect_pool_data lines i =
     (let pool_data = collect_forward lines (i + 1) [] in
      if pool_data = [] then collect_backward lines (int i - 1) pool_data else pool_data)"

type_synonym log_section = "string \<times> pool_info list"

text \<open>
  What the program prints on the error stream, one constructor for each message, with
  the values the message is formatted from.
\<close>

datatype diag =
    ReadError string
  | NoTimestamp nat string
  | InvalidColumns "string list"
  | ValidColumns "string list"
  | NoPoolStatistics
  | OutputSavedTo string
  | NoMatchingPools

record scan_state =
  sections :: "log_section list"
  stderr :: "diag list"

text \<open>
  The body of the main loop for a header at index \<open>i\<close> (lines 96 to 168): a diagnostic
  with the line number \<open>i + 1\<close> when no timestamp is found, a section when records are.
\<close>

definition process_header :: "string \<Rightarrow> string list \<Rightarrow> nat \<Rightarrow> scan_state \<Rightarrow> scan_state" where
  "process_header file_path lines i st =
     (let timestamp = resolve_timestamp lines i in
      case timestamp of
        None \<Rightarrow> st\<lparr>stderr := stderr st @ [NoTimestamp (i + 1) file_path]\<rparr>
      | Some ts \<Rightarrow>
          if ts = [] then st\<lparr>stderr := stderr st @ [NoTimestamp (i + 1) file_path]\<rparr>
          else
            let pool_data = collect_pool_data lines i in
            if pool_data \<noteq> [] then st\<lparr>sections := sections st @ [(ts, pool_data)]\<rparr>
            else st)"

text \<open>The main loop, lines 90 to 172: every branch moves to \<open>i + 1\<close>.\<close>

function scan_lines :: "string \<Rightarrow> string list \<Rightarrow> nat \<Rightarrow> scan_state \<Rightarrow> scan_state" where
  "scan_lines file_path lines i st =
     (if i < length lines then
        (let line = strip (lines ! i) in
         if is_header line then scan_lines file_path lines (i + 1) (process_header file_path lines i st)
         else scan_lines file_path lines (i + 1) st)
      else st)"
  by pat_completeness auto
termination
  by (relation "measure (\<lambda>(file_path, lines, i, st). length lines - i)") auto

text \<open>
  The file system is a function from a path to what \<open>readlines\<close> returns, \<open>None\<close> when
  opening or reading the file raises. The function returns the sections of the file and
  what it printed.
\<close>

definition find_pool_statistics_sections ::
  "(string \<Rightarrow> string list option) \<Rightarrow> string \<Rightarrow> scan_state" where
  "find_pool_statistics_sections fs file_path =
     (case fs file_path of
        None \<Rightarrow> \<lparr>sections = [], stderr = [ReadError file_path]\<rparr>
      | Some lines \<Rightarrow> scan_lines file_path lines 0 \<lparr>sections = [], stderr = []\<rparr>)"

section \<open>The tabular projector and the program\<close>

datatype py_error = KeyError

text \<open>Sequencing of steps that may raise: the first exception ends the computation.\<close>

definition bind_err :: "py_error + 'a \<Rightarrow> ('a \<Rightarrow> py_error + 'b) \<Rightarrow> py_error + 'b" where
  "bind_err m f = (case m of Inl e \<Rightarrow> Inl e | Inr x \<Rightarrow> f x)"

definition valid_columns :: "string list" where
  "valid_columns =
     [''Active'', ''Pending'', ''Backpressure'', ''Delayed'', ''Shared'', ''Stolen'',
      ''Completed'', ''Blocked'', ''All_Time_Blocked'']"

text \<open>
  \<open>pool[column_mapping[col]]\<close>: the dictionary \<open>column_mapping\<close> composed with the
  access to the record's field; a column that is not a key raises \<open>KeyError\<close>.
\<close>

definition column_mapping :: "string \<rightharpoonup> (pool_info \<Rightarrow> string)" where
  "column_mapping =
     map_of [(''Active'', active), (''Pending'', pending), (''Backpressure'', backpressure),
             (''Delayed'', delayed), (''Shared'', shared), (''Stolen'', stolen),
             (''Completed'', completed), (''Blocked'', blocked),
             (''All_Time_Blocked'', all_time_blocked)]"

text \<open>\<open>for col in selected_columns: row.append(pool[column_mapping[col]])\<close>\<close>

fun metric_cells :: "string list \<Rightarrow> pool_info \<Rightarrow> py_error + string list" where
  "metric_cells [] pool = Inr []"
| "metric_cells (col # cols) pool =
     (case column_mapping col of
        None \<Rightarrow> Inl KeyError
      | Some field \<Rightarrow> bind_err (metric_cells cols pool) (\<lambda>vs. Inr (field pool # vs)))"

text \<open>Row mode, lines 265 to 277: the header, then one row for each record.\<close>

fun row_mode_section :: "string list \<Rightarrow> string \<Rightarrow> pool_info list \<Rightarrow> py_error + string list list" where
  "row_mode_section cols ts [] = Inr []"
| "row_mode_section cols ts (pool # pool_data) =
     bind_err (metric_cells cols pool) (\<lambda>vs.
       bind_err (row_mode_section cols ts pool_data) (\<lambda>rows.
         Inr ((ts # pool_name pool # vs) # rows)))"

fun row_mode_rows :: "string list \<Rightarrow> log_section list \<Rightarrow> py_error + string list list" where
  "row_mode_rows cols [] = Inr []"
| "row_mode_rows cols ((ts, pool_data) # all_sections) =
     bind_err (row_mode_section cols ts pool_data) (\<lambda>rows.
       bind_err (row_mode_rows cols all_sections) (\<lambda>more. Inr (rows @ more)))"

definition row_mode_output :: "string list \<Rightarrow> log_section list \<Rightarrow> py_error + string list list" where
  "row_mode_output cols all_sections =
     bind_err (row_mode_rows cols all_sections) (\<lambda>rows.
       Inr ((''timestamp'' # ''pool_name'' # map lower cols) # rows))"

text \<open>Lines 281 to 285: the set of the names of all records that pass the filter.\<close>

definition all_pool_names :: "log_section list \<Rightarrow> string list \<Rightarrow> string set" where
  "all_pool_names all_sections target_pools =
     fold (\<lambda>(ts, pool_data) names.
             fold (\<lambda>pool names. insert (pool_name pool) names)
                  (filter_pools pool_data target_pools) names)
          all_sections {}"

text \<open>Lines 292 to 295: the header of pivot mode, over \<open>sorted(all_pool_names)\<close>.\<close>

definition column_names :: "string list \<Rightarrow> string list \<Rightarrow> string list" where
  "column_names names cols =
     ''timestamp'' # concat (map (\<lambda>name. map (\<lambda>col. name @ ''-'' @ col) cols) names)"

text \<open>
  Line 304: \<open>{pool['pool_name']: pool for pool in filtered_pools}\<close>; a later record
  with the same name replaces the earlier one.
\<close>

definition pool_dict :: "pool_info list \<Rightarrow> (string \<rightharpoonup> pool_info)" where
  "pool_dict filtered_pools = fold (\<lambda>pool d. d(pool_name pool \<mapsto> pool)) filtered_pools Map.empty"

text \<open>Lines 308 to 315: the cells of one row after the timestamp.\<close>

fun pivot_cells :: "string list \<Rightarrow> string list \<Rightarrow> (string \<rightharpoonup> pool_info) \<Rightarrow> py_error + string list" where
  "pivot_cells [] cols d = Inr []"
| "pivot_cells (name # names) cols d =
     (case d name of
        Some pool \<Rightarrow>
          bind_err (metric_cells cols pool) (\<lambda>vs.
            bind_err (pivot_cells names cols d) (\<lambda>rest. Inr (vs @ rest)))
      | None \<Rightarrow>
          bind_err (pivot_cells names cols d) (\<lambda>rest.
            Inr (replicate (length cols) ''N/A'' @ rest)))"

definition pivot_row :: "string list \<Rightarrow> string list \<Rightarrow> string list \<Rightarrow> log_section \<Rightarrow> py_error + string list" where
  "pivot_row names cols target_pools sec =
     (case sec of (ts, pool_data) \<Rightarrow>
        bind_err (pivot_cells names cols (pool_dict (filter_pools pool_data target_pools)))
          (\<lambda>cells. Inr (ts # cells)))"

fun pivot_rows :: "string list \<Rightarrow> string list \<Rightarrow> string list \<Rightarrow> log_section list \<Rightarrow> py_error + string list list" where
  "pivot_rows names cols target_pools [] = Inr []"
| "pivot_rows names cols target_pools (sec # all_sections) =
     bind_err (pivot_row names cols target_pools sec) (\<lambda>row.
       bind_err (pivot_rows names cols target_pools all_sections) (\<lambda>rows. Inr (row # rows)))"

text \<open>Lines 291 to 317, reached when \<open>all_pool_names\<close> is not empty.\<close>

definition pivot_output :: "string list \<Rightarrow> string list \<Rightarrow> log_section list \<Rightarrow> py_error + string list list" where
  "pivot_output cols target_pools all_sections =
     (let names = sorted_list_of_set (all_pool_names all_sections target_pools) in
      bind_err (pivot_rows names cols target_pools all_sections) (\<lambda>rows.
        Inr (column_names names cols # rows)))"

text \<open>\<open>[x.strip() for x in s.split(',') if x.strip()]\<close>\<close>

definition parse_list :: "string \<Rightarrow> string list" where
  "parse_list s = map strip (filter (\<lambda>x. strip x \<noteq> []) (split_on CHR '','' [] s))"

record args =
  files :: "string list"
  pools :: "string option"
  metrics :: "string option"
  output_arg :: "string option"

text \<open>
  How a run ends: \<open>Exit\<close> with the status returned by \<open>main\<close>, what was printed on the
  error stream, and the output file (its name and the rows written to it, \<open>None\<close> when the
  program did not open one); or \<open>Crash\<close>, an exception that leaves \<open>main\<close>. CSV quoting is
  not modelled: a row is the list of its cells. Opening the output file is taken to succeed.
\<close>

datatype outcome =
    Exit int "diag list" "(string \<times> string list list) option"
  | Crash py_error

text \<open>Lines 227 to 230: the sections of all files, in the order of the arguments.\<close>

fun collect_sections :: "(string \<Rightarrow> string list option) \<Rightarrow> string list \<Rightarrow> scan_state \<Rightarrow> scan_state" where
  "collect_sections fs [] st = st"
| "collect_sections fs (file_path # rest) st =
     (let found = find_pool_statistics_sections fs file_path in
      collect_sections fs rest
        \<lparr>sections = sections st @ sections found, stderr = stderr st @ stderr found\<rparr>)"

text \<open>
  Lines 250 to 322. The output file is opened first, under the name given or under the
  default name made from the current time \<open>now\<close>; the \<open>finally\<close> clause closes it on every
  path.
\<close>

definition write_output ::
  "string \<Rightarrow> args \<Rightarrow> string list \<Rightarrow> string list \<Rightarrow> log_section list \<Rightarrow> diag list \<Rightarrow> outcome" where
  "write_output now a target_pools selected_columns all_sections err =
     (let default_filename = ''pool_metrics_'' @ now @ ''.csv'';
          (output_file, err) =
             (case output_arg a of
                None \<Rightarrow> (default_filename, err @ [OutputSavedTo default_filename])
              | Some f \<Rightarrow>
                  if f = [] then (default_filename, err @ [OutputSavedTo default_filename])
                  else (f, err))
      in
      if target_pools = [] then
        (case row_mode_output selected_columns all_sections of
           Inl e \<Rightarrow> Crash e
         | Inr rows \<Rightarrow> Exit 0 err (Some (output_file, rows)))
      else if all_pool_names all_sections target_pools = {} then
        Exit 1 (err @ [NoMatchingPools]) (Some (output_file, []))
      else
        (case pivot_output selected_columns target_pools all_sections of
           Inl e \<Rightarrow> Crash e
         | Inr rows \<Rightarrow> Exit 0 err (Some (output_file, rows))))"

text \<open>
  \<open>main\<close>, given the file system, the current time as \<open>strftime\<close> formats it, and the
  parsed command line.
\<close>

definition main :: "(string \<Rightarrow> string list option) \<Rightarrow> string \<Rightarrow> args \<Rightarrow> outcome" where
  "main fs now a =
     (let target_pools =
            (case pools a of None \<Rightarrow> [] | Some s \<Rightarrow> if s = [] then [] else parse_list s);
          requested_columns =
            (case metrics a of None \<Rightarrow> None | Some s \<Rightarrow> if s = [] then None else Some (parse_list s));
          invalid_columns =
            (case requested_columns of
               None \<Rightarrow> []
             | Some cols \<Rightarrow> filter (\<lambda>col. col \<notin> set valid_columns) cols)
      in
      if invalid_columns \<noteq> [] then
        Exit 1 [InvalidColumns invalid_columns, ValidColumns valid_columns] None
      else
        let selected_columns =
              (case requested_columns of None \<Rightarrow> valid_columns | Some cols \<Rightarrow> cols);
            found = collect_sections fs (files a) \<lparr>sections = [], stderr = []\<rparr>
        in
        if sections found = [] then Exit 1 (stderr found @ [NoPoolStatistics]) None
        else write_output now a target_pools selected_columns (sections found) (stderr found))"

declare re_split_gap.simps [simp del]
declare scan_timestamp.simps [simp del]
declare collect_forward.simps [simp del]
declare collect_backward.simps [simp del]
declare scan_lines.simps [simp del]

section \<open>Properties of the table row parser\<close>

lemma re_split_gap_length_acc: "length (re_split_gap w s) = length (re_split_gap w' s)"
proof (induction w s arbitrary: w' rule: re_split_gap.induct)
  case (1 w)
  show ?case by (simp add: re_split_gap.simps)
next
  case (2 w c)
  show ?case by (simp add: re_split_gap.simps)
next
  case (3 w c d cs)
  show ?case
  proof (cases "isspace c \<and> isspace d")
    case True
    then show ?thesis by (simp add: re_split_gap.simps)
  next
    case False
    have "length (re_split_gap (w @ [c]) (d # cs)) = length (re_split_gap (w' @ [c]) (d # cs))"
      by (rule "3.IH"(2) [OF False])
    with False show ?thesis by (simp only: re_split_gap.simps if_False)
  qed
qed

lemma split_acc_length_acc:
  "(w = []) = (w' = []) \<Longrightarrow> length (split_acc w s) = length (split_acc w' s)"
proof (induction s arbitrary: w w')
  case Nil
  then show ?case by simp
next
  case (Cons c cs)
  show ?case
  proof (cases "isspace c")
    case True
    with Cons.prems show ?thesis by (cases "w = []"; cases "w' = []"; simp)
  next
    case False
    have "length (split_acc (w @ [c]) cs) = length (split_acc (w' @ [c]) cs)"
      by (rule Cons.IH) simp
    with False show ?thesis by simp
  qed
qed

lemma split_acc_dropWhile:
  "length (split_acc [] (dropWhile isspace s)) = length (split_acc [] s)"
  by (induction s) auto

lemma last_dropWhile_ne: "dropWhile P xs \<noteq> [] \<Longrightarrow> last (dropWhile P xs) = last xs"
  by (induction xs) auto

text \<open>
  A text that ends in a non-whitespace character has at least as many words as wide-gap
  columns, one less when it starts with whitespace: every wide gap is followed by a word.
\<close>

lemma gap_le_words:
  "t \<noteq> [] \<Longrightarrow> \<not> isspace (last t) \<Longrightarrow>
   length (re_split_gap [] t) \<le> length (split_acc [] t) + (if isspace (hd t) then 1 else 0)"
proof (induction "length t" arbitrary: t rule: less_induct)
  case less
  then obtain x s where t: "t = x # s" by (cases t) auto
  show ?case
  proof (cases s)
    case Nil
    with t less.prems show ?thesis by (simp add: re_split_gap.simps)
  next
    case (Cons c cs)
    show ?thesis
    proof (cases "isspace x \<and> isspace c")
      case True
      define u where "u = dropWhile isspace cs"
      have cs_ne: "cs \<noteq> []" and last_cs: "\<not> isspace (last cs)"
        using less.prems t Cons True by (auto split: if_splits)
      have u_ne: "u \<noteq> []"
        using cs_ne last_cs unfolding u_def
        by (metis dropWhile_eq_Nil_conv last_in_set)
      have hd_u: "\<not> isspace (hd u)" using u_ne unfolding u_def by (simp add: hd_dropWhile)
      have last_u: "\<not> isspace (last u)"
        using u_ne last_cs unfolding u_def by (simp add: last_dropWhile_ne)
      have "length u < length t"
        unfolding u_def t Cons using length_dropWhile_le [of isspace cs] by simp
      from less.hyps [OF this u_ne last_u] hd_u
      have "length (re_split_gap [] u) \<le> length (split_acc [] u)" by simp
      moreover have "length (split_acc [] t) = length (split_acc [] u)"
        unfolding u_def t Cons using True split_acc_dropWhile [of cs] by simp
      moreover have "length (re_split_gap [] t) = Suc (length (re_split_gap [] u))"
        unfolding u_def t Cons using True by (simp add: re_split_gap.simps)
      ultimately show ?thesis using True t by simp
    next
      case False
      have ne: "c # cs \<noteq> []" and la: "\<not> isspace (last (c # cs))"
        using less.prems t Cons by auto
      have "length (c # cs) < length t" using t Cons by simp
      from less.hyps [OF this ne la]
      have ih: "length (re_split_gap [] (c # cs))
                  \<le> length (split_acc [] (c # cs)) + (if isspace c then 1 else 0)"
        by simp
      have g: "length (re_split_gap [] t) = length (re_split_gap [] (c # cs))"
        unfolding t Cons using False re_split_gap_length_acc [of "[x]" "c # cs" "[]"]
        by (auto simp: re_split_gap.simps)
      show ?thesis
      proof (cases "isspace x")
        case True
        with False have "\<not> isspace c" by simp
        with ih g True t Cons show ?thesis by simp
      next
        case nx: False
        show ?thesis
        proof (cases "isspace c")
          case True
          with ih g nx t Cons show ?thesis by simp
        next
          case nc: False
          have "length (split_acc [x, c] cs) = length (split_acc [c] cs)"
            by (rule split_acc_length_acc) simp
          with ih g nx nc t Cons show ?thesis by simp
        qed
      qed
    qed
  qed
qed

lemma strip_ends:
  assumes "strip s \<noteq> []"
  shows "\<not> isspace (hd (strip s))" and "\<not> isspace (last (strip s))"
proof -
  define u where "u = dropWhile isspace s"
  define v where "v = dropWhile isspace (rev u)"
  have sv: "strip s = rev v" by (simp add: strip_def u_def v_def)
  with assms have v_ne: "v \<noteq> []" by simp
  then have ru_ne: "rev u \<noteq> []" unfolding v_def by auto
  then have u_ne: "u \<noteq> []" by simp
  have "\<not> isspace (hd v)" using v_ne unfolding v_def by (simp add: hd_dropWhile)
  then show "\<not> isspace (last (strip s))" using sv v_ne by (simp add: last_rev)
  have "last v = last (rev u)" using v_ne unfolding v_def by (simp add: last_dropWhile_ne)
  also have "\<dots> = hd u" using u_ne by (simp add: last_rev)
  finally have "hd (strip s) = hd u" using sv v_ne by (simp add: hd_rev)
  moreover have "\<not> isspace (hd u)" using u_ne unfolding u_def by (simp add: hd_dropWhile)
  ultimately show "\<not> isspace (hd (strip s))" by simp
qed

lemma wide_le_words:
  assumes "strip s \<noteq> []"
  shows "length (re_split_wide (strip s)) \<le> length (split_ws (strip s))"
  using gap_le_words [OF assms strip_ends(2) [OF assms]] strip_ends(1) [OF assms]
  by (simp add: re_split_wide_def split_ws_def)

text \<open>
  The first test of \<open>parse_pool_line\<close> (six words) never rejects a line that the second
  one (six columns) accepts.
\<close>

lemma columns_imp_parts:
  assumes "6 \<le> length (re_split_wide (strip line))"
  shows "6 \<le> length (split_ws (strip line))"
proof -
  have "strip line \<noteq> []"
    using assms by (auto simp: re_split_wide_def re_split_gap.simps)
  from wide_le_words [OF this] assms show ?thesis by simp
qed

text \<open>
  Claim C4. A line whose wide-gap split has between six and nine tokens is parsed in the
  short form: tokens 0 to 5, each stripped, are the name, active, pending, completed,
  blocked and all-time-blocked fields, and backpressure, delayed, shared and stolen are
  the text \<open>0\<close>.
\<close>

theorem parse_pool_line_short_form:
  assumes "6 \<le> length (re_split_wide (strip line))"
    and "length (re_split_wide (strip line)) \<le> 9"
  shows "parse_pool_line line =
     Some \<lparr>pool_name = strip (re_split_wide (strip line) ! 0),
           active = strip (re_split_wide (strip line) ! 1),
           pending = strip (re_split_wide (strip line) ! 2),
           backpressure = ''0'',
           delayed = ''0'',
           shared = ''0'',
           stolen = ''0'',
           completed = strip (re_split_wide (strip line) ! 3),
           blocked = strip (re_split_wide (strip line) ! 4),
           all_time_blocked = strip (re_split_wide (strip line) ! 5)\<rparr>"
proof -
  have "\<not> length (split_ws (strip line)) < 6"
    using columns_imp_parts [OF assms(1)] by simp
  moreover have "\<not> length (re_split_wide (strip line)) < 6"
    and "\<not> 10 \<le> length (re_split_wide (strip line))"
    using assms by simp_all
  ultimately show ?thesis by (simp add: parse_pool_line_def Let_def)
qed

theorem parse_pool_line_short_form_witness:
  "6 \<le> length (re_split_wide (strip ''CompactionExecutor      0     0     0     1234     0''))
   \<and> length (re_split_wide (strip ''CompactionExecutor      0     0     0     1234     0'')) \<le> 9
   \<and> parse_pool_line ''CompactionExecutor      0     0     0     1234     0'' =
       Some \<lparr>pool_name = ''CompactionExecutor'', active = ''0'', pending = ''0'',
             backpressure = ''0'', delayed = ''0'', shared = ''0'', stolen = ''0'',
             completed = ''0'', blocked = ''1234'', all_time_blocked = ''0''\<rparr>"
proof -
  have cols: "re_split_wide (strip ''CompactionExecutor      0     0     0     1234     0'') =
      [''CompactionExecutor'', ''0'', ''0'', ''0'', ''1234'', ''0'']"
    by code_simp
  have st1: "strip ''CompactionExecutor'' = ''CompactionExecutor''" by code_simp
  have st2: "strip ''0'' = ''0''" by code_simp
  have st3: "strip ''1234'' = ''1234''" by code_simp
  have h1: "6 \<le> length (re_split_wide (strip ''CompactionExecutor      0     0     0     1234     0''))"
    by (simp add: cols)
  have h2: "length (re_split_wide (strip ''CompactionExecutor      0     0     0     1234     0'')) \<le> 9"
    by (simp add: cols)
  show ?thesis
    using h1 h2 parse_pool_line_short_form [OF h1 h2] by (simp add: cols st1 st2 st3)
qed

text \<open>
  Claim C5. A line whose wide-gap split has fewer than six tokens is rejected: no record
  is produced.
\<close>

theorem parse_pool_line_rejects_short:
  assumes "length (re_split_wide (strip line)) < 6"
  shows "parse_pool_line line = None"
  using assms by (simp add: parse_pool_line_def Let_def)

theorem parse_pool_line_rejects_short_witness:
  "length (re_split_wide (strip ''MutationStage  0  0  17'')) < 6
   \<and> parse_pool_line ''MutationStage  0  0  17'' = None"
proof -
  have h: "length (re_split_wide (strip ''MutationStage  0  0  17'')) < 6"
    by code_simp
  show ?thesis using h parse_pool_line_rejects_short [OF h] by simp
qed

section \<open>Properties of the record filter\<close>

text \<open>
  Claim C10. The record filter returns a subsequence of its input (the order is kept and
  every record returned is a record of the input); with no target it returns its input;
  filtering twice with the same targets is filtering once.
\<close>

theorem filter_pools_subseq_identity_idempotent:
  "subseq (filter_pools pool_data target_pools) pool_data
   \<and> filter_pools pool_data [] = pool_data
   \<and> filter_pools (filter_pools pool_data target_pools) target_pools
       = filter_pools pool_data target_pools"
  by (simp add: filter_pools_def Let_def)

section \<open>Properties of the section locator\<close>

lemma process_header_sections_nonempty:
  assumes "\<forall>(ts, recs) \<in> set (sections st). recs \<noteq> []"
  shows "\<forall>(ts, recs) \<in> set (sections (process_header file_path lines i st)). recs \<noteq> []"
  using assms by (auto simp: process_header_def Let_def split: option.splits)

lemma scan_lines_sections_nonempty:
  assumes "\<forall>(ts, recs) \<in> set (sections st). recs \<noteq> []"
  shows "\<forall>(ts, recs) \<in> set (sections (scan_lines file_path lines i st)). recs \<noteq> []"
  using assms
proof (induction file_path lines i st rule: scan_lines.induct)
  case (1 file_path lines i st)
  show ?case
  proof (cases "i < length lines")
    case False
    with "1.prems" show ?thesis by (simp add: scan_lines.simps [of file_path lines i st])
  next
    case True
    show ?thesis
    proof (cases "is_header (strip (lines ! i))")
      case h: True
      have "\<forall>(ts, recs) \<in> set (sections (scan_lines file_path lines (i + 1)
               (process_header file_path lines i st))). recs \<noteq> []"
        using "1.IH"(1) [OF True refl h] process_header_sections_nonempty [OF "1.prems"]
        by blast
      with True h show ?thesis by (simp add: scan_lines.simps [of file_path lines i st])
    next
      case h: False
      have "\<forall>(ts, recs) \<in> set (sections (scan_lines file_path lines (i + 1) st)). recs \<noteq> []"
        using "1.IH"(2) [OF True refl h "1.prems"] .
      with True h show ?thesis by (simp add: scan_lines.simps [of file_path lines i st])
    qed
  qed
qed

text \<open>
  Claim C3, as amended. Every section the section locator returns for a file has at least
  one record. (The names of its records need not be distinct.)
\<close>

theorem sections_have_records:
  "\<forall>(ts, recs) \<in> set (sections (find_pool_statistics_sections fs file_path)). recs \<noteq> []"
proof (cases "fs file_path")
  case None
  then show ?thesis by (simp add: find_pool_statistics_sections_def)
next
  case (Some lines)
  have "\<forall>(ts, recs) \<in> set (sections (scan_lines file_path lines 0 \<lparr>sections = [], stderr = []\<rparr>)).
          recs \<noteq> []"
    by (rule scan_lines_sections_nonempty) simp
  with Some show ?thesis by (simp add: find_pool_statistics_sections_def)
qed

theorem sections_have_records_witness:
  "length (sections (find_pool_statistics_sections
      (\<lambda>p. Some [''INFO 2025-10-03 10:08:32,368 StatusLogger.java:51'',
                  ''Pool Name  Active  Pending  Completed  Blocked  All Time Blocked'',
                  ''GossipStage  0  0  7  0  0'']) ''a.log'')) = 1
   \<and> snd (hd (sections (find_pool_statistics_sections
      (\<lambda>p. Some [''INFO 2025-10-03 10:08:32,368 StatusLogger.java:51'',
                  ''Pool Name  Active  Pending  Completed  Blocked  All Time Blocked'',
                  ''GossipStage  0  0  7  0  0'']) ''a.log''))) \<noteq> []"
proof -
  have e: "length (sections (find_pool_statistics_sections
      (\<lambda>p. Some [''INFO 2025-10-03 10:08:32,368 StatusLogger.java:51'',
                  ''Pool Name  Active  Pending  Completed  Blocked  All Time Blocked'',
                  ''GossipStage  0  0  7  0  0'']) ''a.log'')) = 1"
    by code_simp
  then have "hd (sections (find_pool_statistics_sections
      (\<lambda>p. Some [''INFO 2025-10-03 10:08:32,368 StatusLogger.java:51'',
                  ''Pool Name  Active  Pending  Completed  Blocked  All Time Blocked'',
                  ''GossipStage  0  0  7  0  0'']) ''a.log''))
      \<in> set (sections (find_pool_statistics_sections
      (\<lambda>p. Some [''INFO 2025-10-03 10:08:32,368 StatusLogger.java:51'',
                  ''Pool Name  Active  Pending  Completed  Blocked  All Time Blocked'',
                  ''GossipStage  0  0  7  0  0'']) ''a.log''))"
    by (cases "sections (find_pool_statistics_sections
      (\<lambda>p. Some [''INFO 2025-10-03 10:08:32,368 StatusLogger.java:51'',
                  ''Pool Name  Active  Pending  Completed  Blocked  All Time Blocked'',
                  ''GossipStage  0  0  7  0  0'']) ''a.log'')") simp_all
  with sections_have_records [of "\<lambda>p. Some [''INFO 2025-10-03 10:08:32,368 StatusLogger.java:51'',
                  ''Pool Name  Active  Pending  Completed  Blocked  All Time Blocked'',
                  ''GossipStage  0  0  7  0  0'']" "''a.log''"]
  have "snd (hd (sections (find_pool_statistics_sections
      (\<lambda>p. Some [''INFO 2025-10-03 10:08:32,368 StatusLogger.java:51'',
                  ''Pool Name  Active  Pending  Completed  Blocked  All Time Blocked'',
                  ''GossipStage  0  0  7  0  0'']) ''a.log''))) \<noteq> []"
    by (auto simp: case_prod_beta)
  with e show ?thesis by simp
qed

text \<open>
  Claim C3 as stated asks for distinct names as well. Two data lines with the same name
  under one header give one section with two records of that name.
\<close>

theorem sections_names_not_distinct_counterexample:
  "length (sections (find_pool_statistics_sections
      (\<lambda>p. Some [''INFO 2025-10-03 10:08:32,368 StatusLogger.java:51'',
                  ''Pool Name  Active  Pending  Completed  Blocked  All Time Blocked'',
                  ''GossipStage  0  0  7  0  0'',
                  ''GossipStage  1  2  9  0  0'']) ''a.log'')) = 1
   \<and> \<not> distinct (map pool_name (snd (hd (sections (find_pool_statistics_sections
      (\<lambda>p. Some [''INFO 2025-10-03 10:08:32,368 StatusLogger.java:51'',
                  ''Pool Name  Active  Pending  Completed  Blocked  All Time Blocked'',
                  ''GossipStage  0  0  7  0  0'',
                  ''GossipStage  1  2  9  0  0'']) ''a.log'')))))"
  by code_simp

text \<open>
  Claim C7. A header at index \<open>i\<close> for which neither the line before it nor the forward
  scan gives a timestamp adds no section and exactly one diagnostic, which names the file
  and the line number \<open>i + 1\<close>; the scan goes on from index \<open>i + 1\<close>.
\<close>

theorem header_without_timestamp_is_skipped:
  assumes "i < length lines"
    and "is_header (strip (lines ! i))"
    and "falsy (resolve_timestamp lines i)"
  shows "scan_lines file_path lines i st =
           scan_lines file_path lines (i + 1)
             \<lparr>sections = sections st, stderr = stderr st @ [NoTimestamp (i + 1) file_path]\<rparr>"
proof -
  have "process_header file_path lines i st =
          \<lparr>sections = sections st, stderr = stderr st @ [NoTimestamp (i + 1) file_path]\<rparr>"
    using assms(3) by (auto simp: process_header_def falsy_def Let_def split: option.splits)
  with assms(1,2) show ?thesis
    by (simp add: scan_lines.simps [of file_path lines i st])
qed

theorem header_without_timestamp_is_skipped_witness:
  "1 < length [''starting up'', ''Pool Name  Active  Pending'', '''',
               ''INFO 2025-10-03 10:08:32,368 StatusLogger.java:51'',
               ''Pool Name  Active  Pending  Completed  Blocked  All Time Blocked'',
               ''GossipStage  0  0  7  0  0'']
   \<and> is_header (strip ([''starting up'', ''Pool Name  Active  Pending'', '''',
               ''INFO 2025-10-03 10:08:32,368 StatusLogger.java:51'',
               ''Pool Name  Active  Pending  Completed  Blocked  All Time Blocked'',
               ''GossipStage  0  0  7  0  0''] ! 1))
   \<and> falsy (resolve_timestamp [''starting up'', ''Pool Name  Active  Pending'', '''',
               ''INFO 2025-10-03 10:08:32,368 StatusLogger.java:51'',
               ''Pool Name  Active  Pending  Completed  Blocked  All Time Blocked'',
               ''GossipStage  0  0  7  0  0''] 1)
   \<and> scan_lines ''a.log'' [''starting up'', ''Pool Name  Active  Pending'', '''',
               ''INFO 2025-10-03 10:08:32,368 StatusLogger.java:51'',
               ''Pool Name  Active  Pending  Completed  Blocked  All Time Blocked'',
               ''GossipStage  0  0  7  0  0''] 1 \<lparr>sections = [], stderr = []\<rparr>
       = \<lparr>sections = [(''2025-10-03 10:08:32,368'',
              [\<lparr>pool_name = ''GossipStage'', active = ''0'', pending = ''0'',
                backpressure = ''0'', delayed = ''0'', shared = ''0'', stolen = ''0'',
                completed = ''7'', blocked = ''0'', all_time_blocked = ''0''\<rparr>])],
            stderr = [NoTimestamp 2 ''a.log'']\<rparr>"
proof -
  have h1: "1 < length [''starting up'', ''Pool Name  Active  Pending'', '''',
               ''INFO 2025-10-03 10:08:32,368 StatusLogger.java:51'',
               ''Pool Name  Active  Pending  Completed  Blocked  All Time Blocked'',
               ''GossipStage  0  0  7  0  0'']"
    by simp
  have h2: "is_header (strip ([''starting up'', ''Pool Name  Active  Pending'', '''',
               ''INFO 2025-10-03 10:08:32,368 StatusLogger.java:51'',
               ''Pool Name  Active  Pending  Completed  Blocked  All Time Blocked'',
               ''GossipStage  0  0  7  0  0''] ! 1))"
    by code_simp
  have h3: "falsy (resolve_timestamp [''starting up'', ''Pool Name  Active  Pending'', '''',
               ''INFO 2025-10-03 10:08:32,368 StatusLogger.java:51'',
               ''Pool Name  Active  Pending  Completed  Blocked  All Time Blocked'',
               ''GossipStage  0  0  7  0  0''] 1)"
    by code_simp
  have r: "scan_lines ''a.log'' [''starting up'', ''Pool Name  Active  Pending'', '''',
               ''INFO 2025-10-03 10:08:32,368 StatusLogger.java:51'',
               ''Pool Name  Active  Pending  Completed  Blocked  All Time Blocked'',
               ''GossipStage  0  0  7  0  0''] (1 + 1)
             \<lparr>sections = sections \<lparr>sections = [], stderr = []\<rparr>,
               stderr = stderr \<lparr>sections = [], stderr = []\<rparr> @ [NoTimestamp (1 + 1) ''a.log'']\<rparr>
       = \<lparr>sections = [(''2025-10-03 10:08:32,368'',
              [\<lparr>pool_name = ''GossipStage'', active = ''0'', pending = ''0'',
                backpressure = ''0'', delayed = ''0'', shared = ''0'', stolen = ''0'',
                completed = ''7'', blocked = ''0'', all_time_blocked = ''0''\<rparr>])],
            stderr = [NoTimestamp 2 ''a.log'']\<rparr>"
    by code_simp
  have c: "scan_lines ''a.log'' [''starting up'', ''Pool Name  Active  Pending'', '''',
               ''INFO 2025-10-03 10:08:32,368 StatusLogger.java:51'',
               ''Pool Name  Active  Pending  Completed  Blocked  All Time Blocked'',
               ''GossipStage  0  0  7  0  0''] 1 \<lparr>sections = [], stderr = []\<rparr>
       = \<lparr>sections = [(''2025-10-03 10:08:32,368'',
              [\<lparr>pool_name = ''GossipStage'', active = ''0'', pending = ''0'',
                backpressure = ''0'', delayed = ''0'', shared = ''0'', stolen = ''0'',
                completed = ''7'', blocked = ''0'', all_time_blocked = ''0''\<rparr>])],
            stderr = [NoTimestamp 2 ''a.log'']\<rparr>"
    using header_without_timestamp_is_skipped [OF h1 h2 h3, of "''a.log''" "\<lparr>sections = [], stderr = []\<rparr>"] r
    by (rule trans)
  from h1 h2 h3 c show ?thesis by (intro conjI)
qed

text \<open>
  Claim C1. With a pool filter that matches no record, the program returns status 1 and
  prints the diagnostic, but the output file exists afterwards: it was opened for writing
  before the names were collected, and is left empty.
\<close>

theorem main_no_match_leaves_empty_output_file:
  "main (\<lambda>p. if p = ''a.log'' then
               Some [''INFO 2025-10-03 10:08:32,368 StatusLogger.java:51'',
                     ''Pool Name  Active  Pending  Completed  Blocked  All Time Blocked'',
                     ''GossipStage  0  0  7  0  0'']
             else None)
        ''20251003_100832''
        \<lparr>files = [''a.log''], pools = Some ''ReadStage'', metrics = None,
          output_arg = Some ''out.csv''\<rparr>
   = Exit 1 [NoMatchingPools] (Some (''out.csv'', []))"
  by code_simp

lemma write_output_no_match:
  assumes "target_pools \<noteq> []" and "all_pool_names all_sections target_pools = {}"
  shows "\<exists>name err'. write_output now a target_pools cols all_sections err
            = Exit 1 (err' @ [NoMatchingPools]) (Some (name, []))"
  using assms by (auto simp: write_output_def Let_def split: option.splits)

text \<open>
  Claim C2. The forward scan for a timestamp reads the lines at the indices \<open>i + 1\<close> to
  \<open>i + 9\<close>: the marker on the ninth line after the header gives the timestamp, the marker
  on the tenth line after the header is never read, and the header is reported as having
  no timestamp.
\<close>

theorem timestamp_scan_reads_nine_lines:
  "find_pool_statistics_sections
     (\<lambda>p. Some (''Pool Name  Active  Pending  Completed  Blocked  All Time Blocked''
                 # replicate 8 ''GossipStage  0  0  7  0  0''
                 @ [''INFO 2025-10-03 10:08:32,368 StatusLogger.java:51'']))
     ''a.log''
   = \<lparr>sections = [(''2025-10-03 10:08:32,368'',
                    replicate 8 \<lparr>pool_name = ''GossipStage'', active = ''0'', pending = ''0'',
                      backpressure = ''0'', delayed = ''0'', shared = ''0'', stolen = ''0'',
                      completed = ''7'', blocked = ''0'', all_time_blocked = ''0''\<rparr>)],
       stderr = []\<rparr>
   \<and> find_pool_statistics_sections
     (\<lambda>p. Some (''Pool Name  Active  Pending  Completed  Blocked  All Time Blocked''
                 # replicate 9 ''GossipStage  0  0  7  0  0''
                 @ [''INFO 2025-10-03 10:08:32,368 StatusLogger.java:51'']))
     ''a.log''
   = \<lparr>sections = [], stderr = [NoTimestamp 1 ''a.log'']\<rparr>"
  by code_simp

lemma scan_timestamp_out_of_window:
  "i + 10 \<le> j \<Longrightarrow> scan_timestamp lines i j = None"
  by (simp add: scan_timestamp.simps [of lines i j])

lemma collect_backward_step:
  assumes "0 \<le> j" and "\<not> is_boundary (strip (lines ! nat j))"
    and "parse_pool_line (strip (lines ! nat j)) = Some r"
  shows "collect_backward lines j acc = collect_backward lines (j - 1) (r # acc)"
  using assms by (subst collect_backward.simps) (simp add: Let_def)

lemma collect_backward_stop:
  assumes "j < 0 \<or> is_boundary (strip (lines ! nat j))
             \<or> parse_pool_line (strip (lines ! nat j)) = None"
  shows "collect_backward lines j acc = acc"
  using assms by (subst collect_backward.simps) (auto simp: Let_def)

text \<open>
  The backward loop, started below a block of lines that are all accepted, returns the
  records of the block in the order of the file, in front of what it was given.
\<close>

lemma collect_backward_block:
  assumes "\<forall>l \<in> set block. \<not> is_boundary (strip l)"
    and "map (\<lambda>l. parse_pool_line (strip l)) block = map Some recs"
    and "front = [] \<or> is_boundary (strip (last front)) \<or> parse_pool_line (strip (last front)) = None"
  shows "collect_backward (front @ block @ rest) (int (length front + length block) - 1) acc
           = recs @ acc"
  using assms(1,2)
proof (induction block arbitrary: rest acc recs rule: rev_induct)
  case Nil
  then have recs: "recs = []" by simp
  have "collect_backward (front @ rest) (int (length front) - 1) acc = acc"
  proof (cases "front = []")
    case True
    then show ?thesis by (intro collect_backward_stop) simp
  next
    case False
    have n: "nat (int (length front) - 1) = length front - 1" by simp
    have "(front @ rest) ! (length front - 1) = last front"
      using False by (simp add: nth_append last_conv_nth)
    moreover have "is_boundary (strip (last front)) \<or> parse_pool_line (strip (last front)) = None"
      using assms(3) False by simp
    ultimately show ?thesis
      by (intro collect_backward_stop) (auto simp: n)
  qed
  then show ?case using recs by simp
next
  case (snoc x bs)
  from snoc.prems(2) obtain rs r where recs: "recs = rs @ [r]"
    and rs: "map (\<lambda>l. parse_pool_line (strip l)) bs = map Some rs"
    and r: "parse_pool_line (strip x) = Some r"
  proof (cases recs rule: rev_cases)
    case Nil
    with snoc.prems(2) show ?thesis by simp
  next
    case (snoc rs r)
    with snoc.prems(2) that show ?thesis by simp
  qed
  have nb: "\<not> is_boundary (strip x)" and nbs: "\<forall>l \<in> set bs. \<not> is_boundary (strip l)"
    using snoc.prems(1) by simp_all
  define lines where "lines = front @ bs @ (x # rest)"
  define j where "j = int (length front + length bs)"
  have j: "0 \<le> j" and n: "nat j = length front + length bs" by (simp_all add: j_def)
  have x: "lines ! nat j = x" by (simp add: n lines_def nth_append)
  have "collect_backward lines j acc = collect_backward lines (j - 1) (r # acc)"
    using j nb r by (intro collect_backward_step) (simp_all add: x)
  also have "\<dots> = rs @ (r # acc)"
    unfolding lines_def j_def by (rule snoc.IH [OF nbs rs])
  finally have "collect_backward lines j acc = recs @ acc" using recs by simp
  moreover have "front @ (bs @ [x]) @ rest = lines" by (simp add: lines_def)
  moreover have "int (length front + length (bs @ [x])) - 1 = j" by (simp add: j_def)
  ultimately show ?case by simp
qed

text \<open>
  Claim C6, as amended. The records before the header are read only when the forward scan
  from \<open>i + 1\<close> gives none. When the forward scan gives none, the header at index \<open>i\<close>
  has a resolved timestamp, and the \<open>N\<close> lines just before it (at least one) are parsed
  as records and none of them is a boundary line (empty, or starting with a date or a
  level marker), the line before them, if any, not being such a line, then the header adds
  exactly one section, whose records are those of the \<open>N\<close> lines from top to bottom.
\<close>

theorem backward_collection_keeps_file_order:
  assumes "lines = front @ block @ header # behind"
    and "i = length front + length block"
    and "is_header (strip header)"
    and "block \<noteq> []"
    and "\<forall>l \<in> set block. \<not> is_boundary (strip l)"
    and "map (\<lambda>l. parse_pool_line (strip l)) block = map Some recs"
    and "front = [] \<or> is_boundary (strip (last front)) \<or> parse_pool_line (strip (last front)) = None"
    and "resolve_timestamp lines i = Some ts"
    and "ts \<noteq> []"
    and "collect_forward lines (i + 1) [] = []"
  shows "scan_lines file_path lines i st =
           scan_lines file_path lines (i + 1)
             \<lparr>sections = sections st @ [(ts, recs)], stderr = stderr st\<rparr>
         \<and> (collect_forward lines' (i' + 1) [] \<noteq> [] \<longrightarrow>
              collect_pool_data lines' i' = collect_forward lines' (i' + 1) [])"
proof -
  have len: "i < length lines" and hd: "lines ! i = header"
    using assms(1,2) by (simp_all add: nth_append)
  have "collect_backward lines (int i - 1) [] = recs @ []"
    unfolding assms(1,2) by (rule collect_backward_block [OF assms(5,6,7)])
  then have pd: "collect_pool_data lines i = recs"
    using assms(10) by (simp add: collect_pool_data_def)
  have "recs \<noteq> []" using assms(4,6) by (cases block; cases recs) simp_all
  then have "process_header file_path lines i st =
               \<lparr>sections = sections st @ [(ts, recs)], stderr = stderr st\<rparr>"
    using assms(8,9) pd by (simp add: process_header_def)
  then have "scan_lines file_path lines i st =
           scan_lines file_path lines (i + 1)
             \<lparr>sections = sections st @ [(ts, recs)], stderr = stderr st\<rparr>"
    using len hd assms(3) by (simp add: scan_lines.simps [of file_path lines i st])
  moreover have "collect_forward lines' (i' + 1) [] \<noteq> [] \<longrightarrow>
              collect_pool_data lines' i' = collect_forward lines' (i' + 1) []"
    by (simp add: collect_pool_data_def)
  ultimately show ?thesis by simp
qed

theorem backward_collection_keeps_file_order_witness:
  "scan_lines ''a.log''
     [''INFO 2025-10-03 10:08:31,000 Server.java:10 - ready'',
      ''ReadStage  1  2  30  0  0'',
      ''GossipStage  0  0  7  0  0'',
      ''Pool Name  Active  Pending  Completed  Blocked  All Time Blocked'',
      ''INFO 2025-10-03 10:08:32,368 StatusLogger.java:51''] 3 \<lparr>sections = [], stderr = []\<rparr>
   = \<lparr>sections = [(''2025-10-03 10:08:32,368'',
        [\<lparr>pool_name = ''ReadStage'', active = ''1'', pending = ''2'', backpressure = ''0'',
          delayed = ''0'', shared = ''0'', stolen = ''0'', completed = ''30'', blocked = ''0'',
          all_time_blocked = ''0''\<rparr>,
         \<lparr>pool_name = ''GossipStage'', active = ''0'', pending = ''0'', backpressure = ''0'',
          delayed = ''0'', shared = ''0'', stolen = ''0'', completed = ''7'', blocked = ''0'',
          all_time_blocked = ''0''\<rparr>])],
      stderr = []\<rparr>
   \<and> collect_pool_data
       [''ReadStage  1  2  30  0  0'',
        ''INFO 2025-10-03 10:08:32,368 StatusLogger.java:51'',
        ''Pool Name  Active  Pending  Completed  Blocked  All Time Blocked'',
        ''GossipStage  0  0  7  0  0''] 2
     = [\<lparr>pool_name = ''GossipStage'', active = ''0'', pending = ''0'', backpressure = ''0'',
          delayed = ''0'', shared = ''0'', stolen = ''0'', completed = ''7'', blocked = ''0'',
          all_time_blocked = ''0''\<rparr>]"
proof -
  let ?front = "[''INFO 2025-10-03 10:08:31,000 Server.java:10 - ready'']"
  let ?block = "[''ReadStage  1  2  30  0  0'', ''GossipStage  0  0  7  0  0'']"
  let ?header = "''Pool Name  Active  Pending  Completed  Blocked  All Time Blocked''"
  let ?behind = "[''INFO 2025-10-03 10:08:32,368 StatusLogger.java:51'']"
  let ?lines = "[''INFO 2025-10-03 10:08:31,000 Server.java:10 - ready'',
      ''ReadStage  1  2  30  0  0'',
      ''GossipStage  0  0  7  0  0'',
      ''Pool Name  Active  Pending  Completed  Blocked  All Time Blocked'',
      ''INFO 2025-10-03 10:08:32,368 StatusLogger.java:51'']"
  let ?read = "\<lparr>pool_name = ''ReadStage'', active = ''1'', pending = ''2'', backpressure = ''0'',
          delayed = ''0'', shared = ''0'', stolen = ''0'', completed = ''30'', blocked = ''0'',
          all_time_blocked = ''0''\<rparr>"
  let ?gossip = "\<lparr>pool_name = ''GossipStage'', active = ''0'', pending = ''0'', backpressure = ''0'',
          delayed = ''0'', shared = ''0'', stolen = ''0'', completed = ''7'', blocked = ''0'',
          all_time_blocked = ''0''\<rparr>"
  let ?ts = "''2025-10-03 10:08:32,368''"
  let ?st = "\<lparr>sections = [], stderr = []\<rparr>"
  let ?lines2 = "[''ReadStage  1  2  30  0  0'',
        ''INFO 2025-10-03 10:08:32,368 StatusLogger.java:51'',
        ''Pool Name  Active  Pending  Completed  Blocked  All Time Blocked'',
        ''GossipStage  0  0  7  0  0'']"
  have a1: "?lines = ?front @ ?block @ ?header # ?behind" by simp
  have a2: "(3::nat) = length ?front + length ?block" by simp
  have a3: "is_header (strip ?header)" by code_simp
  have a4: "?block \<noteq> []" by simp
  have a5: "\<forall>l \<in> set ?block. \<not> is_boundary (strip l)" by code_simp
  have a6: "map (\<lambda>l. parse_pool_line (strip l)) ?block = map Some [?read, ?gossip]" by code_simp
  have a7: "?front = [] \<or> is_boundary (strip (last ?front))
              \<or> parse_pool_line (strip (last ?front)) = None" by code_simp
  have a8: "resolve_timestamp ?lines 3 = Some ?ts" by code_simp
  have a9: "?ts \<noteq> []" by simp
  have a10: "collect_forward ?lines (3 + 1) [] = []" by code_simp
  note t = backward_collection_keeps_file_order
             [OF a1 a2 a3 a4 a5 a6 a7 a8 a9 a10, of "''a.log''" ?st ?lines2 2]
  have r: "scan_lines ''a.log'' ?lines (3 + 1)
             \<lparr>sections = sections ?st @ [(?ts, [?read, ?gossip])], stderr = stderr ?st\<rparr>
           = \<lparr>sections = [(?ts, [?read, ?gossip])], stderr = []\<rparr>"
    by code_simp
  have c1: "scan_lines ''a.log'' ?lines 3 ?st
           = \<lparr>sections = [(?ts, [?read, ?gossip])], stderr = []\<rparr>"
    using t [THEN conjunct1] r by (rule trans)
  have f: "collect_forward ?lines2 (2 + 1) [] = [?gossip]" by code_simp
  then have "collect_forward ?lines2 (2 + 1) [] \<noteq> []" by simp
  with t [THEN conjunct2] have "collect_pool_data ?lines2 2 = collect_forward ?lines2 (2 + 1) []"
    by (rule mp)
  from this f have c2: "collect_pool_data ?lines2 2 = [?gossip]" by (rule trans)
  from c1 c2 show ?thesis by (rule conjI)
qed

text \<open>
  Claim C6 as stated does not ask for a timestamp, nor that the data lines are not
  boundary lines. A header that ends the file after a marker line and two data lines has
  no timestamp (the line before it is a data line and nothing follows), so it is
  reported and gives no section. A data line that starts with a level marker is parsed
  as a record but stops the backward loop, so the header after it gives no section
  although its timestamp is found.
\<close>

theorem backward_collection_counterexample:
  "parse_pool_line (strip ''ReadStage  1  2  30  0  0'') \<noteq> None
   \<and> parse_pool_line (strip ''GossipStage  0  0  7  0  0'') \<noteq> None
   \<and> find_pool_statistics_sections
       (\<lambda>p. Some [''INFO 2025-10-03 10:08:32,368 StatusLogger.java:51'',
                   ''ReadStage  1  2  30  0  0'',
                   ''GossipStage  0  0  7  0  0'',
                   ''Pool Name  Active  Pending  Completed  Blocked  All Time Blocked''])
       ''a.log''
     = \<lparr>sections = [], stderr = [NoTimestamp 4 ''a.log'']\<rparr>
   \<and> parse_pool_line (strip ''DEBUGStage  0  0  1  0  0'') \<noteq> None
   \<and> resolve_timestamp
       [''DEBUGStage  0  0  1  0  0'',
        ''Pool Name  Active  Pending  Completed  Blocked  All Time Blocked'',
        ''INFO 2025-10-03 10:08:32,368 StatusLogger.java:51''] 1
     = Some ''2025-10-03 10:08:32,368''
   \<and> find_pool_statistics_sections
       (\<lambda>p. Some [''DEBUGStage  0  0  1  0  0'',
                   ''Pool Name  Active  Pending  Completed  Blocked  All Time Blocked'',
                   ''INFO 2025-10-03 10:08:32,368 StatusLogger.java:51''])
       ''a.log''
     = \<lparr>sections = [], stderr = []\<rparr>"
  by code_simp

section \<open>Properties of the tabular projector\<close>

lemma column_mapping_valid:
  "col \<in> set valid_columns \<Longrightarrow> \<exists>field. column_mapping col = Some field"
  by (auto simp: valid_columns_def column_mapping_def)

text \<open>With validated columns the lookup of a metric never raises.\<close>

lemma metric_cells_valid:
  assumes "set cols \<subseteq> set valid_columns"
  shows "metric_cells cols pool = Inr (map (\<lambda>col. the (column_mapping col) pool) cols)"
  using assms
proof (induction cols)
  case Nil
  show ?case by simp
next
  case (Cons col cols)
  then obtain field where "column_mapping col = Some field"
    using column_mapping_valid [of col] by auto
  with Cons show ?case by (simp add: bind_err_def)
qed

lemma metric_cells_length:
  "metric_cells cols pool = Inr vs \<Longrightarrow> length vs = length cols"
  by (induction cols arbitrary: vs) (auto simp: bind_err_def split: option.splits sum.splits)

lemma pivot_cells_valid:
  assumes "set cols \<subseteq> set valid_columns"
  shows "pivot_cells names cols d =
     Inr (concat (map (\<lambda>name. case d name of
                                 None \<Rightarrow> replicate (length cols) ''N/A''
                               | Some pool \<Rightarrow> map (\<lambda>col. the (column_mapping col) pool) cols) names))"
  by (induction names) (simp_all add: bind_err_def metric_cells_valid [OF assms] split: option.splits)

lemma pivot_rows_valid:
  assumes "set cols \<subseteq> set valid_columns"
  shows "pivot_rows names cols target_pools all_sections =
     Inr (map (\<lambda>sec. fst sec # concat (map (\<lambda>name.
            case pool_dict (filter_pools (snd sec) target_pools) name of
              None \<Rightarrow> replicate (length cols) ''N/A''
            | Some pool \<Rightarrow> map (\<lambda>col. the (column_mapping col) pool) cols) names)) all_sections)"
  by (induction all_sections)
     (simp_all add: bind_err_def pivot_row_def pivot_cells_valid [OF assms] split: prod.splits)

text \<open>The dictionary of line 304 maps a name to the last record that has it.\<close>

lemma fold_update_lookup:
  fixes f :: "pool_info \<Rightarrow> (string \<rightharpoonup> pool_info) \<Rightarrow> (string \<rightharpoonup> pool_info)"
  defines "f \<equiv> (\<lambda>pool d. d(pool_name pool \<mapsto> pool))"
  shows "fold f xs m name =
     (case filter (\<lambda>pool. pool_name pool = name) xs of
        [] \<Rightarrow> m name
      | y # ys \<Rightarrow> Some (last (y # ys)))"
proof (induction xs arbitrary: m)
  case Nil
  show ?case by simp
next
  case (Cons x xs)
  have step: "fold f (x # xs) m name = fold f xs (f x m) name" by simp
  have fx: "f x m name = (if pool_name x = name then Some x else m name)"
    by (auto simp: f_def)
  show ?case
    unfolding step Cons.IH [of "f x m"] fx
    by (cases "filter (\<lambda>pool. pool_name pool = name) xs") simp_all
qed

lemma pool_dict_lookup:
  "pool_dict xs name =
     (case filter (\<lambda>pool. pool_name pool = name) xs of
        [] \<Rightarrow> None
      | y # ys \<Rightarrow> Some (last (y # ys)))"
  by (simp add: pool_dict_def fold_update_lookup)

lemma pool_dict_None: "name \<notin> pool_name ` set xs \<Longrightarrow> pool_dict xs name = None"
proof -
  assume "name \<notin> pool_name ` set xs"
  then have "filter (\<lambda>pool. pool_name pool = name) xs = []"
    by (auto simp: filter_empty_conv)
  then show ?thesis by (simp add: pool_dict_lookup)
qed

lemma pool_dict_last:
  "filter (\<lambda>pool. pool_name pool = name) xs = earlier @ [final] \<Longrightarrow> pool_dict xs name = Some final"
  by (cases earlier) (simp_all add: pool_dict_lookup)

text \<open>Cutting a concatenation of blocks of one length.\<close>

lemma concat_block:
  assumes "\<forall>xs \<in> set xss. length xs = n" and "m < length xss"
  shows "take n (drop (m * n) (concat xss)) = xss ! m"
  using assms
proof (induction xss arbitrary: m)
  case Nil
  then show ?case by simp
next
  case (Cons xs xss)
  show ?case
  proof (cases m)
    case 0
    with Cons.prems show ?thesis by simp
  next
    case (Suc k)
    with Cons.prems have "take n (drop (k * n) (concat xss)) = xss ! k"
      by (intro Cons.IH) simp_all
    with Suc Cons.prems show ?thesis by (simp add: add.commute)
  qed
qed

lemma concat_blocks_length:
  assumes "\<forall>xs \<in> set xss. length xs = n"
  shows "length (concat xss) = length xss * n"
  using assms by (induction xss) simp_all

lemma fold_insert_names:
  "fold (\<lambda>pool names. insert (pool_name pool) names) xs B = B \<union> pool_name ` set xs"
  by (induction xs arbitrary: B) auto

lemma fold_union:
  "fold (\<lambda>sec names. names \<union> h sec) secs A = A \<union> (\<Union>sec \<in> set secs. h sec)"
  by (induction secs arbitrary: A) auto

lemma all_pool_names_eq:
  "all_pool_names all_sections target_pools =
     (\<Union>sec \<in> set all_sections. pool_name ` set (filter_pools (snd sec) target_pools))"
proof -
  have e: "(\<lambda>(ts, pool_data) names.
           fold (\<lambda>pool names. insert (pool_name pool) names)
                (filter_pools pool_data target_pools) names)
        = (\<lambda>sec names. names \<union> pool_name ` set (filter_pools (snd sec) target_pools))"
    by (auto simp: fun_eq_iff fold_insert_names)
  show ?thesis
    unfolding all_pool_names_def e fold_union by simp
qed

lemma all_pool_names_finite: "finite (all_pool_names all_sections target_pools)"
  by (simp add: all_pool_names_eq)

lemma write_output_pivot:
  assumes "target_pools \<noteq> []"
    and "all_pool_names all_sections target_pools \<noteq> {}"
    and "pivot_output cols target_pools all_sections = Inr out"
  shows "\<exists>out_file err'. write_output now a target_pools cols all_sections err
           = Exit 0 err' (Some (out_file, out))"
  using assms by (auto simp: write_output_def Let_def split: option.splits)

text \<open>
  Claim C8. In pivot mode (a pool filter is given and matches a name) the output file
  holds a header and exactly one row for each section. The header is \<open>timestamp\<close>
  followed, for each matched name of all sections in lexicographic order, by the selected
  metric columns named \<open>name-Metric\<close>. The row of a section starts with its timestamp, and
  for a name that has no record in the section's filtered records, the cells under the
  columns of that name are all \<open>N/A\<close>.
\<close>

theorem pivot_mode_output:
  assumes "target_pools \<noteq> []"
    and "all_pool_names all_sections target_pools \<noteq> {}"
    and "set cols \<subseteq> set valid_columns"
  shows "\<exists>out_file err' names rows.
      write_output now a target_pools cols all_sections err
        = Exit 0 err'
            (Some (out_file,
               (''timestamp'' # concat (map (\<lambda>name. map (\<lambda>col. name @ ''-'' @ col) cols) names))
               # rows))
      \<and> sorted names \<and> distinct names
      \<and> set names =
          (\<Union>sec \<in> set all_sections. pool_name ` set (filter_pools (snd sec) target_pools))
      \<and> length rows = length all_sections
      \<and> (\<forall>k < length all_sections.
            hd (rows ! k) = fst (all_sections ! k)
            \<and> length (rows ! k) = 1 + length names * length cols
            \<and> (\<forall>m < length names.
                 names ! m \<notin> pool_name ` set (filter_pools (snd (all_sections ! k)) target_pools)
                 \<longrightarrow> take (length cols) (drop (1 + m * length cols) (rows ! k))
                       = replicate (length cols) ''N/A''))"
proof -
  define names where "names = sorted_list_of_set (all_pool_names all_sections target_pools)"
  define cell where "cell sec name =
     (case pool_dict (filter_pools (snd sec) target_pools) name of
        None \<Rightarrow> replicate (length cols) ''N/A''
      | Some pool \<Rightarrow> map (\<lambda>col. the (column_mapping col) pool) cols)"
    for sec :: log_section and name
  define rows where "rows = map (\<lambda>sec. fst sec # concat (map (cell sec) names)) all_sections"
  have "pivot_output cols target_pools all_sections = Inr (column_names names cols # rows)"
    unfolding pivot_output_def Let_def names_def [symmetric] rows_def cell_def
    by (simp add: pivot_rows_valid [OF assms(3)] bind_err_def)
  from write_output_pivot [OF assms(1,2) this]
  obtain out_file err' where wo: "write_output now a target_pools cols all_sections err
       = Exit 0 err' (Some (out_file, column_names names cols # rows))"
    by blast
  have fin: "finite (all_pool_names all_sections target_pools)"
    by (rule all_pool_names_finite)
  have n1: "sorted names" and n2: "distinct names" unfolding names_def by simp_all
  have n3: "set names =
          (\<Union>sec \<in> set all_sections. pool_name ` set (filter_pools (snd sec) target_pools))"
    unfolding names_def using fin by (simp add: all_pool_names_eq)
  have len: "length rows = length all_sections" by (simp add: rows_def)
  have cell_len: "length (cell sec name) = length cols" for sec name
    by (simp add: cell_def split: option.splits)
  have blocks: "\<forall>xs \<in> set (map (cell sec) names). length xs = length cols" for sec
    by (auto simp: cell_len)
  have row: "hd (rows ! k) = fst (all_sections ! k)
            \<and> length (rows ! k) = 1 + length names * length cols
            \<and> (\<forall>m < length names.
                 names ! m \<notin> pool_name ` set (filter_pools (snd (all_sections ! k)) target_pools)
                 \<longrightarrow> take (length cols) (drop (1 + m * length cols) (rows ! k))
                       = replicate (length cols) ''N/A'')"
    if k: "k < length all_sections" for k
  proof -
    define sec where "sec = all_sections ! k"
    have rk: "rows ! k = fst sec # concat (map (cell sec) names)"
      using k by (simp add: rows_def sec_def)
    have l: "length (rows ! k) = 1 + length names * length cols"
      unfolding rk using concat_blocks_length [OF blocks [of sec]] by simp
    have na: "take (length cols) (drop (1 + m * length cols) (rows ! k))
                       = replicate (length cols) ''N/A''"
      if m: "m < length names"
        and miss: "names ! m \<notin> pool_name ` set (filter_pools (snd sec) target_pools)" for m
    proof -
      have "take (length cols) (drop (m * length cols) (concat (map (cell sec) names)))
              = map (cell sec) names ! m"
        by (rule concat_block [OF blocks]) (simp add: m)
      also have "\<dots> = cell sec (names ! m)" using m by simp
      also have "\<dots> = replicate (length cols) ''N/A''"
        using pool_dict_None [OF miss] by (simp add: cell_def)
      finally show ?thesis by (simp add: rk)
    qed
    show ?thesis using rk l na unfolding sec_def by simp
  qed
  have hdr: "column_names names cols =
      ''timestamp'' # concat (map (\<lambda>name. map (\<lambda>col. name @ ''-'' @ col) cols) names)"
    by (simp add: column_names_def)
  show ?thesis
    using wo n1 n2 n3 len row unfolding hdr by blast
qed

theorem pivot_mode_output_witness:
  "[''GossipStage''] \<noteq> []
   \<and> all_pool_names
        [(''2025-10-03 10:08:32,368'',
          [\<lparr>pool_name = ''GossipStage'', active = ''0'', pending = ''0'', backpressure = ''0'',
            delayed = ''0'', shared = ''0'', stolen = ''0'', completed = ''7'', blocked = ''0'',
            all_time_blocked = ''0''\<rparr>]),
         (''2025-10-03 10:09:32,368'',
          [\<lparr>pool_name = ''ReadStage'', active = ''1'', pending = ''2'', backpressure = ''0'',
            delayed = ''0'', shared = ''0'', stolen = ''0'', completed = ''30'', blocked = ''0'',
            all_time_blocked = ''0''\<rparr>])]
        [''GossipStage''] \<noteq> {}
   \<and> set [''Active'', ''Completed''] \<subseteq> set valid_columns
   \<and> write_output ''20251003_100832''
        \<lparr>files = [''a.log''], pools = Some ''GossipStage'', metrics = Some ''Active,Completed'',
          output_arg = Some ''out.csv''\<rparr>
        [''GossipStage''] [''Active'', ''Completed'']
        [(''2025-10-03 10:08:32,368'',
          [\<lparr>pool_name = ''GossipStage'', active = ''0'', pending = ''0'', backpressure = ''0'',
            delayed = ''0'', shared = ''0'', stolen = ''0'', completed = ''7'', blocked = ''0'',
            all_time_blocked = ''0''\<rparr>]),
         (''2025-10-03 10:09:32,368'',
          [\<lparr>pool_name = ''ReadStage'', active = ''1'', pending = ''2'', backpressure = ''0'',
            delayed = ''0'', shared = ''0'', stolen = ''0'', completed = ''30'', blocked = ''0'',
            all_time_blocked = ''0''\<rparr>])]
        []
      = Exit 0 []
          (Some (''out.csv'',
             [[''timestamp'', ''GossipStage-Active'', ''GossipStage-Completed''],
              [''2025-10-03 10:08:32,368'', ''0'', ''7''],
              [''2025-10-03 10:09:32,368'', ''N/A'', ''N/A'']]))"
proof -
  let ?secs = "[(''2025-10-03 10:08:32,368'',
          [\<lparr>pool_name = ''GossipStage'', active = ''0'', pending = ''0'', backpressure = ''0'',
            delayed = ''0'', shared = ''0'', stolen = ''0'', completed = ''7'', blocked = ''0'',
            all_time_blocked = ''0''\<rparr>]),
         (''2025-10-03 10:09:32,368'',
          [\<lparr>pool_name = ''ReadStage'', active = ''1'', pending = ''2'', backpressure = ''0'',
            delayed = ''0'', shared = ''0'', stolen = ''0'', completed = ''30'', blocked = ''0'',
            all_time_blocked = ''0''\<rparr>])]"
  let ?a = "\<lparr>files = [''a.log''], pools = Some ''GossipStage'', metrics = Some ''Active,Completed'',
          output_arg = Some ''out.csv''\<rparr>"
  have h1: "[''GossipStage''] \<noteq> []" by simp
  have h2: "all_pool_names ?secs [''GossipStage''] \<noteq> {}" by code_simp
  have h3: "set [''Active'', ''Completed''] \<subseteq> set valid_columns" by code_simp
  have e: "write_output ''20251003_100832'' ?a [''GossipStage''] [''Active'', ''Completed''] ?secs []
      = Exit 0 []
          (Some (''out.csv'',
             [[''timestamp'', ''GossipStage-Active'', ''GossipStage-Completed''],
              [''2025-10-03 10:08:32,368'', ''0'', ''7''],
              [''2025-10-03 10:09:32,368'', ''N/A'', ''N/A'']]))"
    by code_simp
  show ?thesis
    using pivot_mode_output [OF h1 h2 h3, of "''20251003_100832''" ?a "[]"] h1 h2 h3 e
    by blast
qed

lemma filter_pools_append:
  "filter_pools (xs @ ys) target_pools = filter_pools xs target_pools @ filter_pools ys target_pools"
  by (simp add: filter_pools_def Let_def)

lemma filter_pools_Cons:
  "filter_pools (pool # ys) target_pools = filter_pools [pool] target_pools @ filter_pools ys target_pools"
  using filter_pools_append [of "[pool]" ys target_pools] by simp

lemma filter_pools_single:
  "filter_pools [pool] target_pools = [pool] \<or> filter_pools [pool] target_pools = []"
  by (simp add: filter_pools_def Let_def)

text \<open>Whether a record passes the filter depends on its name only.\<close>

lemma filter_pools_same_name:
  assumes "filter_pools [pool] target_pools = [pool]"
    and "other \<in> set ys" and "pool_name other = pool_name pool"
  shows "other \<in> set (filter_pools ys target_pools)"
  using assms by (auto simp: filter_pools_def Let_def split: if_splits)

lemma pool_dict_alt:
  "pool_dict xs name =
     (if filter (\<lambda>pool. pool_name pool = name) xs = [] then None
      else Some (last (filter (\<lambda>pool. pool_name pool = name) xs)))"
  by (simp add: pool_dict_lookup split: list.splits)

text \<open>A record followed by a record of the same name leaves no trace in the dictionary.\<close>

lemma pool_dict_drop_earlier:
  assumes "pool_name pool \<in> pool_name ` set ys"
  shows "pool_dict (xs @ pool # ys) = pool_dict (xs @ ys)"
proof
  fix name
  show "pool_dict (xs @ pool # ys) name = pool_dict (xs @ ys) name"
  proof (cases "pool_name pool = name")
    case False
    then show ?thesis by (simp add: pool_dict_alt)
  next
    case True
    with assms have "filter (\<lambda>pool. pool_name pool = name) ys \<noteq> []"
      by (auto simp: filter_empty_conv)
    with True show ?thesis by (simp add: pool_dict_alt)
  qed
qed

lemma pool_dict_filter_drop_earlier:
  assumes "pool_name pool \<in> pool_name ` set ys"
  shows "pool_dict (filter_pools (xs @ pool # ys) target_pools)
           = pool_dict (filter_pools (xs @ ys) target_pools)"
proof (cases "filter_pools [pool] target_pools = [pool]")
  case True
  from assms obtain other where o: "other \<in> set ys" "pool_name other = pool_name pool" by auto
  have "other \<in> set (filter_pools ys target_pools)"
    by (rule filter_pools_same_name [OF True o])
  then have "pool_name other \<in> pool_name ` set (filter_pools ys target_pools)"
    by (rule imageI)
  then have "pool_name pool \<in> pool_name ` set (filter_pools ys target_pools)"
    by (simp only: o(2))
  from pool_dict_drop_earlier [OF this, of "filter_pools xs target_pools"] True
  show ?thesis
    by (simp add: filter_pools_append filter_pools_Cons [of pool ys])
next
  case False
  with filter_pools_single [of pool target_pools]
  have "filter_pools [pool] target_pools = []" by simp
  then show ?thesis
    by (simp add: filter_pools_append filter_pools_Cons [of pool ys])
qed

text \<open>
  Claim C9. In pivot mode, when the filtered records of a section hold several records
  with one name, the cells under the columns of that name are the metric values of the
  last of them; a record that is followed by a record of the same name can be deleted
  from the section without changing the row.
\<close>

theorem pivot_row_uses_last_record:
  assumes "set cols \<subseteq> set valid_columns"
    and "m < length names"
    and "filter (\<lambda>pool. pool_name pool = names ! m) (filter_pools pool_data target_pools)
           = earlier @ [final]"
  shows "\<exists>row vs.
      pivot_row names cols target_pools (ts, pool_data) = Inr row
      \<and> metric_cells cols final = Inr vs
      \<and> take (length cols) (drop (1 + m * length cols) row) = vs
      \<and> (\<forall>xs pool ys.
            pool_data = xs @ pool # ys \<and> pool_name pool \<in> pool_name ` set ys
            \<longrightarrow> pivot_row names cols target_pools (ts, xs @ ys) = Inr row)"
proof -
  define cell where "cell d name =
     (case d name of
        None \<Rightarrow> replicate (length cols) ''N/A''
      | Some pool \<Rightarrow> map (\<lambda>col. the (column_mapping col) pool) cols)"
    for d :: "string \<rightharpoonup> pool_info" and name
  define d where "d = pool_dict (filter_pools pool_data target_pools)"
  define row where "row = ts # concat (map (cell d) names)"
  define vs where "vs = map (\<lambda>col. the (column_mapping col) final) cols"
  have pr: "pivot_row names cols target_pools (ts, pd)
              = Inr (ts # concat (map (cell (pool_dict (filter_pools pd target_pools))) names))"
    for pd
    unfolding cell_def by (simp add: pivot_row_def pivot_cells_valid [OF assms(1)] bind_err_def)
  have r: "pivot_row names cols target_pools (ts, pool_data) = Inr row"
    by (simp add: pr row_def d_def)
  have v: "metric_cells cols final = Inr vs"
    by (simp add: metric_cells_valid [OF assms(1)] vs_def)
  have blocks: "\<forall>xs \<in> set (map (cell d) names). length xs = length cols"
    by (auto simp: cell_def split: option.splits)
  have "d (names ! m) = Some final"
    unfolding d_def by (rule pool_dict_last [OF assms(3)])
  then have "cell d (names ! m) = vs" by (simp add: cell_def vs_def)
  moreover have "take (length cols) (drop (m * length cols) (concat (map (cell d) names)))
                   = map (cell d) names ! m"
    by (rule concat_block [OF blocks]) (simp add: assms(2))
  ultimately have c: "take (length cols) (drop (1 + m * length cols) row) = vs"
    using assms(2) by (simp add: row_def)
  have del: "pivot_row names cols target_pools (ts, xs @ ys) = Inr row"
    if "pool_data = xs @ pool # ys" and "pool_name pool \<in> pool_name ` set ys" for xs pool ys
    using pool_dict_filter_drop_earlier [OF that(2), of xs target_pools] that(1)
    by (simp add: pr row_def d_def)
  from r v c del show ?thesis by blast
qed

theorem pivot_row_uses_last_record_witness:
  "pivot_row [''GossipStage''] [''Active'', ''Completed''] [''gossipstage'']
     (''2025-10-03 10:08:32,368'',
      [\<lparr>pool_name = ''GossipStage'', active = ''0'', pending = ''0'', backpressure = ''0'',
        delayed = ''0'', shared = ''0'', stolen = ''0'', completed = ''7'', blocked = ''0'',
        all_time_blocked = ''0''\<rparr>,
       \<lparr>pool_name = ''ReadStage'', active = ''1'', pending = ''2'', backpressure = ''0'',
        delayed = ''0'', shared = ''0'', stolen = ''0'', completed = ''30'', blocked = ''0'',
        all_time_blocked = ''0''\<rparr>,
       \<lparr>pool_name = ''GossipStage'', active = ''5'', pending = ''0'', backpressure = ''0'',
        delayed = ''0'', shared = ''0'', stolen = ''0'', completed = ''9'', blocked = ''0'',
        all_time_blocked = ''0''\<rparr>])
   = Inr [''2025-10-03 10:08:32,368'', ''5'', ''9'']
   \<and> pivot_row [''GossipStage''] [''Active'', ''Completed''] [''gossipstage'']
     (''2025-10-03 10:08:32,368'',
      [\<lparr>pool_name = ''ReadStage'', active = ''1'', pending = ''2'', backpressure = ''0'',
        delayed = ''0'', shared = ''0'', stolen = ''0'', completed = ''30'', blocked = ''0'',
        all_time_blocked = ''0''\<rparr>,
       \<lparr>pool_name = ''GossipStage'', active = ''5'', pending = ''0'', backpressure = ''0'',
        delayed = ''0'', shared = ''0'', stolen = ''0'', completed = ''9'', blocked = ''0'',
        all_time_blocked = ''0''\<rparr>])
   = Inr [''2025-10-03 10:08:32,368'', ''5'', ''9'']"
proof -
  let ?g1 = "\<lparr>pool_name = ''GossipStage'', active = ''0'', pending = ''0'', backpressure = ''0'',
        delayed = ''0'', shared = ''0'', stolen = ''0'', completed = ''7'', blocked = ''0'',
        all_time_blocked = ''0''\<rparr>"
  let ?r = "\<lparr>pool_name = ''ReadStage'', active = ''1'', pending = ''2'', backpressure = ''0'',
        delayed = ''0'', shared = ''0'', stolen = ''0'', completed = ''30'', blocked = ''0'',
        all_time_blocked = ''0''\<rparr>"
  let ?g2 = "\<lparr>pool_name = ''GossipStage'', active = ''5'', pending = ''0'', backpressure = ''0'',
        delayed = ''0'', shared = ''0'', stolen = ''0'', completed = ''9'', blocked = ''0'',
        all_time_blocked = ''0''\<rparr>"
  let ?ts = "''2025-10-03 10:08:32,368''"
  have h1: "set [''Active'', ''Completed''] \<subseteq> set valid_columns" by code_simp
  have h2: "0 < length [''GossipStage'']" by simp
  have h3: "filter (\<lambda>pool. pool_name pool = [''GossipStage''] ! 0)
              (filter_pools [?g1, ?r, ?g2] [''gossipstage'']) = [?g1] @ [?g2]"
    by code_simp
  from pivot_row_uses_last_record [OF h1 h2 h3, of ?ts]
  obtain row vs where row: "pivot_row [''GossipStage''] [''Active'', ''Completed''] [''gossipstage'']
        (?ts, [?g1, ?r, ?g2]) = Inr row"
    and vs: "metric_cells [''Active'', ''Completed''] ?g2 = Inr vs"
    and cells: "take (length [''Active'', ''Completed''])
                  (drop (1 + 0 * length [''Active'', ''Completed'']) row) = vs"
    and del: "\<And>xs pool ys. [?g1, ?r, ?g2] = xs @ pool # ys \<Longrightarrow>
                pool_name pool \<in> pool_name ` set ys \<Longrightarrow>
                pivot_row [''GossipStage''] [''Active'', ''Completed''] [''gossipstage'']
                  (?ts, xs @ ys) = Inr row"
    by blast
  have e: "pivot_row [''GossipStage''] [''Active'', ''Completed''] [''gossipstage'']
        (?ts, [?g1, ?r, ?g2]) = Inr [?ts, ''5'', ''9'']"
    by code_simp
  with row have r: "row = [?ts, ''5'', ''9'']" by simp
  have "pivot_row [''GossipStage''] [''Active'', ''Completed''] [''gossipstage'']
                  (?ts, [] @ [?r, ?g2]) = Inr row"
  proof (rule del [of "[]" ?g1 "[?r, ?g2]"])
    show "[?g1, ?r, ?g2] = [] @ ?g1 # [?r, ?g2]" by simp
    show "pool_name ?g1 \<in> pool_name ` set [?r, ?g2]" by simp
  qed
  with r e show ?thesis by simp
qed

section \<open>The program as a whole\<close>

lemma row_mode_section_valid:
  assumes "set cols \<subseteq> set valid_columns"
  shows "\<exists>rows. row_mode_section cols ts pool_data = Inr rows"
  by (induction pool_data) (auto simp: bind_err_def metric_cells_valid [OF assms])

lemma row_mode_rows_valid:
  assumes "set cols \<subseteq> set valid_columns"
  shows "\<exists>rows. row_mode_rows cols all_sections = Inr rows"
proof (induction all_sections)
  case Nil
  show ?case by simp
next
  case (Cons sec all_sections)
  obtain ts pool_data where sec: "sec = (ts, pool_data)" by (cases sec)
  from row_mode_section_valid [OF assms, of ts pool_data] Cons
  show ?case by (auto simp: sec bind_err_def)
qed

text \<open>
  The columns that reach the writer are validated, so no lookup of a metric raises:
  \<open>write_output\<close> always ends in \<open>Exit\<close>.
\<close>

lemma write_output_exits:
  assumes "set cols \<subseteq> set valid_columns"
  shows "\<exists>status err' out. write_output now a target_pools cols all_sections err
           = Exit status err' out"
proof -
  obtain rows where r: "row_mode_rows cols all_sections = Inr rows"
    using row_mode_rows_valid [OF assms] by blast
  have p: "\<exists>out. pivot_output cols target_pools all_sections = Inr out"
    by (simp add: pivot_output_def Let_def pivot_rows_valid [OF assms] bind_err_def)
  show ?thesis
    using r p
    by (auto simp: write_output_def row_mode_output_def bind_err_def Let_def
             split: option.splits sum.splits)
qed


text \<open>
  \<open>main\<close> either fails before it opens an output file, or hands validated columns and
  at least one section to the writer.
\<close>

lemma main_cases:
  fixes fs now a
  defines "target_pools \<equiv>
      (case pools a of None \<Rightarrow> [] | Some s \<Rightarrow> if s = [] then [] else parse_list s)"
    and "cols \<equiv>
      (case metrics a of None \<Rightarrow> valid_columns
       | Some s \<Rightarrow> if s = [] then valid_columns else parse_list s)"
    and "found \<equiv> collect_sections fs (files a) \<lparr>sections = [], stderr = []\<rparr>"
  shows "(\<exists>err. main fs now a = Exit 1 err None)
         \<or> (set cols \<subseteq> set valid_columns \<and> sections found \<noteq> []
            \<and> main fs now a
                = write_output now a target_pools cols (sections found) (stderr found))"
proof (cases "metrics a = None \<or> metrics a = Some []")
  case True
  then have c: "cols = valid_columns" by (auto simp: cols_def)
  show ?thesis
  proof (cases "sections found = []")
    case e: True
    with True have "main fs now a = Exit 1 (stderr found @ [NoPoolStatistics]) None"
      by (auto simp: main_def Let_def found_def)
    then show ?thesis by blast
  next
    case e: False
    with True have "main fs now a
        = write_output now a target_pools valid_columns (sections found) (stderr found)"
      by (auto simp: main_def Let_def found_def target_pools_def)
    with e c show ?thesis by simp
  qed
next
  case False
  then obtain s where s: "metrics a = Some s" "s \<noteq> []" by (cases "metrics a") auto
  then have c: "cols = parse_list s" by (simp add: cols_def)
  show ?thesis
  proof (cases "filter (\<lambda>col. col \<notin> set valid_columns) (parse_list s) = []")
    case i: False
    with s have "main fs now a
        = Exit 1 [InvalidColumns (filter (\<lambda>col. col \<notin> set valid_columns) (parse_list s)),
                  ValidColumns valid_columns] None"
      by (simp add: main_def Let_def)
    then show ?thesis by blast
  next
    case i: True
    then have v: "set cols \<subseteq> set valid_columns"
      unfolding c by (auto simp: filter_empty_conv)
    show ?thesis
    proof (cases "sections found = []")
      case e: True
      with s i have "main fs now a = Exit 1 (stderr found @ [NoPoolStatistics]) None"
        by (simp add: main_def Let_def found_def)
      then show ?thesis by blast
    next
      case e: False
      with s i have "main fs now a
          = write_output now a target_pools (parse_list s) (sections found) (stderr found)"
        by (simp add: main_def Let_def found_def target_pools_def)
      with e c v show ?thesis by simp
    qed
  qed
qed


lemma main_exits: "\<exists>status err out. main fs now a = Exit status err out"
proof -
  from main_cases [of fs now a] show ?thesis
  proof
    assume "\<exists>err. main fs now a = Exit 1 err None"
    then show ?thesis by blast
  next
    assume w: "set (case metrics a of None \<Rightarrow> valid_columns
                    | Some s \<Rightarrow> if s = [] then valid_columns else parse_list s)
                 \<subseteq> set valid_columns
               \<and> sections (collect_sections fs (files a) \<lparr>sections = [], stderr = []\<rparr>) \<noteq> []
               \<and> main fs now a
                   = write_output now a
                       (case pools a of None \<Rightarrow> [] | Some s \<Rightarrow> if s = [] then [] else parse_list s)
                       (case metrics a of None \<Rightarrow> valid_columns
                        | Some s \<Rightarrow> if s = [] then valid_columns else parse_list s)
                       (sections (collect_sections fs (files a) \<lparr>sections = [], stderr = []\<rparr>))
                       (stderr (collect_sections fs (files a) \<lparr>sections = [], stderr = []\<rparr>))"
    from w have m: "main fs now a
                   = write_output now a
                       (case pools a of None \<Rightarrow> [] | Some s \<Rightarrow> if s = [] then [] else parse_list s)
                       (case metrics a of None \<Rightarrow> valid_columns
                        | Some s \<Rightarrow> if s = [] then valid_columns else parse_list s)
                       (sections (collect_sections fs (files a) \<lparr>sections = [], stderr = []\<rparr>))
                       (stderr (collect_sections fs (files a) \<lparr>sections = [], stderr = []\<rparr>))"
      by (elim conjE)
    show ?thesis
      unfolding m by (rule write_output_exits [OF w [THEN conjunct1]])
  qed
qed

end
